theory Spec2Isabelle
  imports Main "HOL-Library.Word" "HOL-Library.Multiset"
begin

section \<open>Values shared by the worker and the coordinator\<close>

text \<open>
  The model follows \<^verbatim>\<open>extract_all_images.py\<close>. Bytes are 8-bit words, Python
  \<^verbatim>\<open>str\<close> values are HOL strings, Python integers are \<open>int\<close> where a negative value
  can reach the code and \<open>nat\<close> where the value is an unsigned field read from the file.
\<close>

type_synonym byte = "8 word"
type_synonym bytes = "byte list"

text \<open>
  Every \<^verbatim>\<open>raise\<close> that can reach the code is a value. The constructors stand for
  instances of Python's \<^verbatim>\<open>Exception\<close>; \<open>OtherError\<close> is whatever else a converter
  module raises, with its message.
\<close>

datatype py_exception =
    IndexError
  | KeyError string
  | ValueError
  | FileNotFoundError
  | FileExistsError
  | IsADirectoryError
  | NotADirectoryError
  | UnicodeDecodeError
  | UnboundLocalError
  | OtherError string

subsection \<open>Strings\<close>

text \<open>\<^verbatim>\<open>s.split(sep)\<close> for a one-character separator: never the empty list.\<close>

fun split_sep :: "char \<Rightarrow> string \<Rightarrow> string list" where
  "split_sep c [] = [[]]"
| "split_sep c (x # xs) =
     (if x = c then [] # split_sep c xs
      else (case split_sep c xs of
              [] \<Rightarrow> [[x]]
            | w # ws \<Rightarrow> (x # w) # ws))"

subsection \<open>pathlib paths\<close>

text \<open>
  A \<^verbatim>\<open>pathlib.PurePosixPath\<close> is its root (\<^verbatim>\<open>''\<close>, \<^verbatim>\<open>'/'\<close> or \<^verbatim>\<open>'//'\<close>) and its
  components. Parsing drops empty components and \<^verbatim>\<open>.\<close>; exactly two leading slashes
  are kept as the root \<^verbatim>\<open>//\<close>, as POSIX asks.
\<close>

record path =
  root :: string
  names :: "string list"

definition splitroot :: "string \<Rightarrow> string" where
  "splitroot s =
     (if s \<noteq> [] \<and> hd s = CHR ''/'' then
        (if length s - length (dropWhile (\<lambda>c. c = CHR ''/'') s) = 2 then ''//'' else ''/'')
      else '''')"

definition Path :: "string \<Rightarrow> path" where
  "Path s = \<lparr>root = splitroot s,
             names = filter (\<lambda>x. x \<noteq> [] \<and> x \<noteq> ''.'') (split_sep CHR ''/'' s)\<rparr>"

text \<open>\<^verbatim>\<open>p / s\<close>: an absolute right operand replaces the left one.\<close>

definition joinpath :: "path \<Rightarrow> string \<Rightarrow> path" where
  "joinpath p s =
     (let q = Path s in
      if root q \<noteq> [] then q
      else \<lparr>root = root p, names = names p @ names q\<rparr>)"

definition parent :: "path \<Rightarrow> path" where
  "parent p = p\<lparr>names := butlast (names p)\<rparr>"

text \<open>The path itself and everything above it, the topmost first.\<close>

definition ancestors :: "path \<Rightarrow> path list" where
  "ancestors p = map (\<lambda>k. p\<lparr>names := take k (names p)\<rparr>) [0..<Suc (length (names p))]"

subsection \<open>The file system\<close>

record filesystem =
  files :: "path \<rightharpoonup> bytes"
  dirs :: "path set"

text \<open>
  \<^verbatim>\<open>p.mkdir(parents=True, exist_ok=True)\<close>: the missing directories down to \<open>p\<close> are
  created; the call fails when \<open>p\<close> or something above it is a regular file.
\<close>

definition mkdir_parents :: "filesystem \<Rightarrow> path \<Rightarrow> py_exception + filesystem" where
  "mkdir_parents fs p =
     (case filter (\<lambda>q. files fs q \<noteq> None) (ancestors p) of
        [] \<Rightarrow> Inr (fs\<lparr>dirs := dirs fs \<union> set (ancestors p)\<rparr>)
      | q # _ \<Rightarrow> Inl (if q = p then FileExistsError else NotADirectoryError))"

text \<open>\<^verbatim>\<open>open(p, "wb+")\<close>: creates the file or truncates it to nothing.\<close>

definition open_wb :: "filesystem \<Rightarrow> path \<Rightarrow> py_exception + filesystem" where
  "open_wb fs p =
     (if p \<in> dirs fs then Inl IsADirectoryError
      else if filter (\<lambda>q. files fs q \<noteq> None) (ancestors (parent p)) \<noteq> [] \<and> names p \<noteq> []
        then Inl NotADirectoryError
      else Inr (fs\<lparr>files := (files fs)(p \<mapsto> [])\<rparr>))"

text \<open>\<^verbatim>\<open>open(p, "rb")\<close>: the bytes of an existing regular file.\<close>

definition open_rb :: "filesystem \<Rightarrow> path \<Rightarrow> py_exception + bytes" where
  "open_rb fs p =
     (if p \<in> dirs fs then Inl IsADirectoryError
      else (case files fs p of
              None \<Rightarrow> Inl FileNotFoundError
            | Some b \<Rightarrow> Inr b))"

subsection \<open>Memory mappings\<close>

text \<open>
  \<^verbatim>\<open>mmap.mmap(fileno, 0, access=a)\<close> maps the whole file; an empty file cannot be
  mapped. What a store into the mapped memory does to the file depends on the access
  mode alone: \<^verbatim>\<open>ACCESS_WRITE\<close> writes through, \<^verbatim>\<open>ACCESS_COPY\<close> changes the memory of
  this process only, \<^verbatim>\<open>ACCESS_READ\<close> allows no store.
\<close>

datatype mmap_access = ACCESS_READ | ACCESS_WRITE | ACCESS_COPY

record mmap_obj =
  backing :: path
  access :: mmap_access
  mem :: bytes

definition mmap_mmap :: "path \<Rightarrow> bytes \<Rightarrow> mmap_access \<Rightarrow> py_exception + mmap_obj" where
  "mmap_mmap p content a =
     (if content = [] then Inl ValueError
      else Inr \<lparr>backing = p, access = a, mem = content\<rparr>)"

text \<open>The file as it is once the memory of mapping \<open>m\<close> holds \<open>new_mem\<close>.\<close>

definition mmap_visible :: "mmap_obj \<Rightarrow> bytes \<Rightarrow> (path \<rightharpoonup> bytes) \<Rightarrow> (path \<rightharpoonup> bytes)" where
  "mmap_visible m new_mem fls =
     (case access m of
        ACCESS_WRITE \<Rightarrow> fls(backing m \<mapsto> new_mem)
      | ACCESS_READ \<Rightarrow> fls
      | ACCESS_COPY \<Rightarrow> fls)"

subsection \<open>Logging\<close>

text \<open>
  The levels of the \<^verbatim>\<open>logging\<close> module. A logger whose own level is 0 takes the root
  logger's level, \<^verbatim>\<open>WARNING\<close>. A record is emitted when its level is at least the
  effective level; the handler writes the formatted record and a newline to the stream.
  The format holds the time of day, so the formatter is a parameter.
\<close>

definition DEBUG :: int where "DEBUG = 10"
definition INFO :: int where "INFO = 20"
definition WARNING :: int where "WARNING = 30"
definition ERROR :: int where "ERROR = 40"

record log_record =
  levelno :: int
  message :: string
  exc_info :: "py_exception option"

definition getEffectiveLevel :: "int \<Rightarrow> int" where
  "getEffectiveLevel lvl = (if lvl \<noteq> 0 then lvl else WARNING)"

definition isEnabledFor :: "int \<Rightarrow> int \<Rightarrow> bool" where
  "isEnabledFor loggerLevel lvl = (lvl \<ge> getEffectiveLevel loggerLevel)"

definition emit :: "(log_record \<Rightarrow> string) \<Rightarrow> int \<Rightarrow> log_record \<Rightarrow> string list \<Rightarrow> string list" where
  "emit fmt loggerLevel r stream =
     (if isEnabledFor loggerLevel (levelno r) then stream @ [fmt r @ [CHR 0x0A]] else stream)"

definition emit_all :: "(log_record \<Rightarrow> string) \<Rightarrow> int \<Rightarrow> log_record list \<Rightarrow> string list \<Rightarrow> string list" where
  "emit_all fmt loggerLevel rs stream = foldl (\<lambda>s r. emit fmt loggerLevel r s) stream rs"

text \<open>\<^verbatim>\<open>str(e)\<close>, the message of the record \<^verbatim>\<open>logger.exception(e)\<close> makes.\<close>

fun exception_str :: "py_exception \<Rightarrow> string" where
  "exception_str (KeyError k) = k"
| "exception_str (OtherError m) = m"
| "exception_str _ = []"

definition logger_exception :: "py_exception \<Rightarrow> log_record" where
  "logger_exception e = \<lparr>levelno = ERROR, message = exception_str e, exc_info = Some e\<rparr>"

text \<open>\<^verbatim>\<open>xs[i]\<close>: a negative index counts from the end.\<close>

definition py_index :: "'a list \<Rightarrow> int \<Rightarrow> py_exception + 'a" where
  "py_index xs i =
     (if 0 \<le> i \<and> i < int (length xs) then Inr (xs ! nat i)
      else if i < 0 \<and> - int (length xs) \<le> i then Inr (xs ! nat (int (length xs) + i))
      else Inl IndexError)"

section \<open>The converter modules\<close>

text \<open>
  The worker imports its contexts and its five converters from the package
  \<^verbatim>\<open>DyldExtractor\<close>. They are parameters of the model. A context constructor is the
  parser it runs on the mapped bytes; a converter receives the extraction context,
  changes it in place, logs through the context's logger and may raise, so its result
  is the context as it left it, the records it logged and the exception, if any.
\<close>

record image_info =
  address :: nat
  pathFileOffset :: nat

record dyld_ctx =
  dyld_file :: bytes
  images :: "image_info list"

record segment_command =
  fileoff :: nat
  filesize :: nat

record macho_ctx =
  file_buf :: bytes
  segments :: "string \<rightharpoonup> segment_command"

record extraction_ctx =
  dyldCtx :: dyld_ctx
  machoCtx :: macho_ctx

record step_result =
  ctx_after :: extraction_ctx
  logged :: "log_record list"
  raised :: "py_exception option"

record converters =
  DyldContext :: "bytes \<Rightarrow> py_exception + image_info list"
  convertAddr :: "bytes \<Rightarrow> nat \<Rightarrow> py_exception + nat"
  readString :: "bytes \<Rightarrow> nat \<Rightarrow> py_exception + bytes"
  decode_utf8 :: "bytes \<Rightarrow> py_exception + string"
  MachOContext :: "bytes \<Rightarrow> nat \<Rightarrow> py_exception + (string \<rightharpoonup> segment_command)"
  processSlideInfo :: "extraction_ctx \<Rightarrow> step_result"
  optimizeLinkedit :: "extraction_ctx \<Rightarrow> step_result"
  fixStubs :: "extraction_ctx \<Rightarrow> step_result"
  fixObjC :: "extraction_ctx \<Rightarrow> step_result"
  optimizeOffsets :: "extraction_ctx \<Rightarrow> step_result"
  formatter :: "log_record \<Rightarrow> string"

section \<open>The worker: \<^verbatim>\<open>_extractImage\<close>\<close>

text \<open>What the worker does to the world outside it, in the order it does it.\<close>

datatype event =
    Mmap path mmap_access
  | Call string
  | Mkdir path
  | Open_wb path
  | Write path bytes

text \<open>
  The state of the \<^verbatim>\<open>try\<close> block: the context, the records logged so far, the
  calls made so far and the exception that ended the block, if one did. A statement
  of the block runs only while no exception is pending.
\<close>

record run =
  ctx :: extraction_ctx
  records :: "log_record list"
  calls :: "event list"
  failure :: "py_exception option"

definition call_step :: "string \<Rightarrow> (extraction_ctx \<Rightarrow> step_result) \<Rightarrow> run \<Rightarrow> run" where
  "call_step name f r =
     (case failure r of
        Some e \<Rightarrow> r
      | None \<Rightarrow>
          (let res = f (ctx r)
           in \<lparr>ctx = ctx_after res,
               records = records r @ logged res,
               calls = calls r @ [Call name],
               failure = raised res\<rparr>))"

text \<open>Lines 129 to 133.\<close>

definition run_pipeline :: "converters \<Rightarrow> extraction_ctx \<Rightarrow> run" where
  "run_pipeline cv ectx =
     (let r0 = \<lparr>ctx = ectx, records = [], calls = [], failure = None\<rparr>;
          r1 = call_step ''processSlideInfo'' (processSlideInfo cv) r0;
          r2 = call_step ''optimizeLinkedit'' (optimizeLinkedit cv) r1;
          r3 = call_step ''fixStubs'' (fixStubs cv) r2;
          r4 = call_step ''fixObjC'' (fixObjC cv) r3;
          r5 = call_step ''optimizeOffsets'' (optimizeOffsets cv) r4
      in r5)"

text \<open>
  Lines 136 to 146. \<^verbatim>\<open>file.seek(0)\<close> and \<^verbatim>\<open>file.read(fileSize)\<close> give the bytes from
  the start of the buffer, \<open>fileSize\<close> of them or as many as there are.
\<close>

definition write_file ::
  "filesystem \<Rightarrow> path \<Rightarrow> extraction_ctx \<Rightarrow> event list \<times> py_exception option \<times> filesystem" where
  "write_file fs outputPath ectx =
     (case mkdir_parents fs (parent outputPath) of
        Inl e \<Rightarrow> ([Mkdir (parent outputPath)], Some e, fs)
      | Inr fs1 \<Rightarrow>
          (case open_wb fs1 outputPath of
             Inl e \<Rightarrow> ([Mkdir (parent outputPath), Open_wb outputPath], Some e, fs1)
           | Inr fs2 \<Rightarrow>
               (case segments (machoCtx ectx) ''__LINKEDIT'' of
                  None \<Rightarrow>
                    ([Mkdir (parent outputPath), Open_wb outputPath],
                     Some (KeyError ''__LINKEDIT''), fs2)
                | Some linkeditSeg \<Rightarrow>
                    (let fileSize = fileoff linkeditSeg + filesize linkeditSeg;
                         written = take fileSize (file_buf (machoCtx ectx))
                     in ([Mkdir (parent outputPath), Open_wb outputPath, Write outputPath written],
                         None,
                         fs2\<lparr>files := (files fs2)(outputPath \<mapsto> written)\<rparr>)))))"

text \<open>The body of the \<^verbatim>\<open>try\<close>: the five converters, then the file.\<close>

definition try_block ::
  "converters \<Rightarrow> filesystem \<Rightarrow> path \<Rightarrow> extraction_ctx \<Rightarrow> run \<times> filesystem" where
  "try_block cv fs outputPath ectx =
     (let r = run_pipeline cv ectx
      in (case failure r of
            Some e \<Rightarrow> (r, fs)
          | None \<Rightarrow>
              (case write_file fs outputPath (ctx r) of
                 (evs, exc, fs') \<Rightarrow> (r\<lparr>calls := calls r @ evs, failure := exc\<rparr>, fs'))))"

text \<open>Lines 113 to 126: the two mappings of the cache and the contexts on them.\<close>

definition open_contexts ::
  "converters \<Rightarrow> filesystem \<Rightarrow> path \<Rightarrow> int \<Rightarrow>
   py_exception + (mmap_obj \<times> mmap_obj \<times> extraction_ctx)" where
  "open_contexts cv fs dyldPath imageIndex =
     (case open_rb fs dyldPath of
        Inl e \<Rightarrow> Inl e
      | Inr content \<Rightarrow>
     (case mmap_mmap dyldPath content ACCESS_READ of
        Inl e \<Rightarrow> Inl e
      | Inr dyldFile \<Rightarrow>
     (case DyldContext cv (mem dyldFile) of
        Inl e \<Rightarrow> Inl e
      | Inr imgs \<Rightarrow>
     (case py_index imgs imageIndex of
        Inl e \<Rightarrow> Inl e
      | Inr img \<Rightarrow>
     (case convertAddr cv (mem dyldFile) (address img) of
        Inl e \<Rightarrow> Inl e
      | Inr imageOffset \<Rightarrow>
     (case mmap_mmap dyldPath content ACCESS_COPY of
        Inl e \<Rightarrow> Inl e
      | Inr machoFile \<Rightarrow>
     (case MachOContext cv (mem machoFile) imageOffset of
        Inl e \<Rightarrow> Inl e
      | Inr segs \<Rightarrow>
          Inr (dyldFile, machoFile,
               \<lparr>dyldCtx = \<lparr>dyld_file = mem dyldFile, images = imgs\<rparr>,
                machoCtx = \<lparr>file_buf = mem machoFile, segments = segs\<rparr>\<rparr>))))))))"

text \<open>Lines 90 to 93: \<^verbatim>\<open>imagePath[0]\<close> raises on the empty string.\<close>

definition relative_imagePath :: "string \<Rightarrow> py_exception + string" where
  "relative_imagePath imagePath =
     (case imagePath of
        [] \<Rightarrow> Inl IndexError
      | c # rest \<Rightarrow> Inr (if c = CHR ''/'' then rest else imagePath))"

record worker_result =
  returned :: "py_exception + string"
  fs_after :: filesystem
  effects :: "event list"

text \<open>
  The whole of \<^verbatim>\<open>_extractImage\<close>. An exception outside the \<^verbatim>\<open>try\<close> leaves the
  function; one inside is logged with \<^verbatim>\<open>logger.exception\<close>. What the converters did
  to the memory of the two mappings reaches the cache file as far as the access modes
  allow. The function returns the text of its logging stream.
\<close>

definition extractImage ::
  "converters \<Rightarrow> filesystem \<Rightarrow> path \<Rightarrow> path \<Rightarrow> int \<Rightarrow> string \<Rightarrow> int \<Rightarrow> worker_result" where
  "extractImage cv fs dyldPath outputDir imageIndex imagePath loggingLevel =
     (case relative_imagePath imagePath of
        Inl e \<Rightarrow> \<lparr>returned = Inl e, fs_after = fs, effects = []\<rparr>
      | Inr rel \<Rightarrow>
     (case open_contexts cv fs dyldPath imageIndex of
        Inl e \<Rightarrow> \<lparr>returned = Inl e, fs_after = fs, effects = []\<rparr>
      | Inr (dyldFile, machoFile, ectx) \<Rightarrow>
     (case try_block cv fs (joinpath outputDir rel) ectx of
        (r, fs') \<Rightarrow>
          (let recs = records r @ (case failure r of None \<Rightarrow> [] | Some e \<Rightarrow> [logger_exception e]);
               loggingStream = emit_all (formatter cv) loggingLevel recs [];
               fls = mmap_visible machoFile (file_buf (machoCtx (ctx r)))
                       (mmap_visible dyldFile (dyld_file (dyldCtx (ctx r))) (files fs'))
           in \<lparr>returned = Inr (concat loggingStream),
               fs_after = fs'\<lparr>files := fls\<rparr>,
               effects = [Mmap dyldPath (access dyldFile), Mmap dyldPath (access machoFile)]
                         @ calls r\<rparr>))))"

section \<open>The coordinator: \<^verbatim>\<open>_main\<close>\<close>

subsection \<open>Arguments\<close>

record args =
  dyld_path :: path
  output_dir :: "path option"
  verbosity :: nat

text \<open>Lines 165 to 170.\<close>

definition outputDir_of :: "path option \<Rightarrow> path" where
  "outputDir_of out = (case out of None \<Rightarrow> Path ''binaries'' | Some p \<Rightarrow> p)"

text \<open>
  Lines 174 to 182. The chain has no \<^verbatim>\<open>else\<close>: for another verbosity the name stays
  unbound (the argument parser admits 0 to 3 only).
\<close>

definition loggingLevel_of :: "nat \<Rightarrow> int option" where
  "loggingLevel_of v =
     (if v = 0 then Some 100
      else if v = 1 then Some WARNING
      else if v = 2 then Some INFO
      else if v = 3 then Some DEBUG
      else None)"

subsection \<open>Processes and signals\<close>

datatype signal_handler = SIG_DFL | SIG_IGN | default_int_handler

record process =
  sigint :: signal_handler

text \<open>Lines 74 to 80.\<close>

definition workerInitializer :: "process \<Rightarrow> process" where
  "workerInitializer p = p\<lparr>sigint := SIG_IGN\<rparr>"

text \<open>
  \<^verbatim>\<open>multiprocessing.Pool(initializer=f)\<close>: as many workers as the machine has
  processors, each a child of the calling process that runs \<open>f\<close> before it takes a job.
\<close>

definition Pool :: "(process \<Rightarrow> process) \<Rightarrow> nat \<Rightarrow> process \<Rightarrow> process list" where
  "Pool initializer cpu_count caller = map (\<lambda>_. initializer caller) [0..<cpu_count]"

text \<open>What a process does when SIGINT reaches it.\<close>

datatype signal_effect = Ignored | Terminated | KeyboardInterrupt

definition deliver_sigint :: "process \<Rightarrow> signal_effect" where
  "deliver_sigint p =
     (case sigint p of
        SIG_IGN \<Rightarrow> Ignored
      | SIG_DFL \<Rightarrow> Terminated
      | default_int_handler \<Rightarrow> KeyboardInterrupt)"

subsection \<open>Jobs\<close>

text \<open>
  The pool runs the workers at times of its own. The coordinator sees of a job the
  sweep of its polling loop from which \<^verbatim>\<open>ready()\<close> is true, and what the worker
  returned or raised; a worker sees the file system as it is when it runs.
\<close>

record scheduler =
  finishes :: "nat \<Rightarrow> nat"
  sees :: "nat \<Rightarrow> filesystem"

record async_result =
  ready_at :: nat
  outcome :: "py_exception + string"

type_synonym extraction_args = "path \<times> path \<times> int \<times> string \<times> int"

definition apply_async :: "converters \<Rightarrow> scheduler \<Rightarrow> nat \<Rightarrow> extraction_args \<Rightarrow> async_result" where
  "apply_async cv sched k a =
     (case a of (dyldPath, outputDir, imageIndex, imagePath, loggingLevel) \<Rightarrow>
        \<lparr>ready_at = finishes sched k,
         outcome = returned (extractImage cv (sees sched k) dyldPath outputDir
                               imageIndex imagePath loggingLevel)\<rparr>)"

definition ready :: "nat \<Rightarrow> async_result \<Rightarrow> bool" where
  "ready clock job = (ready_at job \<le> clock)"

text \<open>Lines 186 to 194: the bytes up to and without the terminator, decoded.\<close>

fun read_imagePaths ::
  "converters \<Rightarrow> bytes \<Rightarrow> image_info list \<Rightarrow> string list \<Rightarrow> py_exception + string list" where
  "read_imagePaths cv m [] imagePaths = Inr imagePaths"
| "read_imagePaths cv m (img # rest) imagePaths =
     (case readString cv m (pathFileOffset img) of
        Inl e \<Rightarrow> Inl e
      | Inr raw \<Rightarrow>
          (case decode_utf8 cv (butlast raw) of
             Inl e \<Rightarrow> Inl e
           | Inr imagePath \<Rightarrow> read_imagePaths cv m rest (imagePaths @ [imagePath])))"

definition list_imagePaths :: "converters \<Rightarrow> filesystem \<Rightarrow> path \<Rightarrow> py_exception + string list" where
  "list_imagePaths cv fs dyldPath =
     (case open_rb fs dyldPath of
        Inl e \<Rightarrow> Inl e
      | Inr content \<Rightarrow>
     (case mmap_mmap dyldPath content ACCESS_READ of
        Inl e \<Rightarrow> Inl e
      | Inr dyldFile \<Rightarrow>
     (case DyldContext cv (mem dyldFile) of
        Inl e \<Rightarrow> Inl e
      | Inr imgs \<Rightarrow> read_imagePaths cv (mem dyldFile) imgs [])))"

text \<open>Lines 200 to 204: the arguments of the jobs, in the order of submission.\<close>

definition extractionArgs :: "path \<Rightarrow> path \<Rightarrow> int \<Rightarrow> string list \<Rightarrow> extraction_args list" where
  "extractionArgs dyldPath outputDir loggingLevel imagePaths =
     map (\<lambda>(i, imagePath). (dyldPath, outputDir, int i, imagePath, loggingLevel))
         (enumerate 0 imagePaths)"

definition submit_jobs ::
  "converters \<Rightarrow> scheduler \<Rightarrow> extraction_args list \<Rightarrow> (string \<times> async_result) list" where
  "submit_jobs cv sched arglist =
     map (\<lambda>(k, a). (fst (snd (snd (snd a))), apply_async cv sched k a)) (enumerate 0 arglist)"

subsection \<open>Collecting the results\<close>

record output_state =
  jobOutputs :: "string list"
  jobsComplete :: nat
  stdout :: "string list"
  progressBar :: "nat list"

definition summary_of :: "string \<Rightarrow> string \<Rightarrow> string" where
  "summary_of imageName jobOutput =
     ''----- '' @ imageName @ '' -----'' @ [CHR 0x0A] @ jobOutput
       @ ''--------------------'' @ [CHR 0x0A]"

definition imageName_of :: "string \<Rightarrow> string" where
  "imageName_of imagePath = last (split_sep CHR ''/'' imagePath)"

text \<open>
  Lines 222 to 233, for a job that is ready. \<^verbatim>\<open>job.get()\<close> gives what the worker
  returned, or raises what the worker raised; the line before it is printed either way.
\<close>

definition process_job ::
  "string \<times> async_result \<Rightarrow> output_state \<Rightarrow> py_exception option \<times> output_state" where
  "process_job j st =
     (case j of (imagePath, job) \<Rightarrow>
        (let imageName = imageName_of imagePath;
             st1 = st\<lparr>stdout := stdout st @ [''Processed: '' @ imageName]\<rparr>
         in (case outcome job of
               Inl e \<Rightarrow> (Some e, st1)
             | Inr jobOutput \<Rightarrow>
                 (let st2 = (if jobOutput \<noteq> [] then
                               st1\<lparr>jobOutputs := jobOutputs st1 @ [summary_of imageName jobOutput],
                                   stdout := stdout st1 @ [summary_of imageName jobOutput]\<rparr>
                             else st1)
                  in (None, st2\<lparr>jobsComplete := jobsComplete st2 + 1,
                                progressBar := progressBar st2 @ [jobsComplete st2 + 1]\<rparr>)))))"

text \<open>
  Lines 217 to 235: one pass of the \<^verbatim>\<open>for\<close> loop over the indices, the highest
  first. \<^verbatim>\<open>jobs.pop(i)\<close> removes the entry at \<open>i\<close>.
\<close>

fun sweep ::
  "nat \<Rightarrow> nat list \<Rightarrow> (string \<times> async_result) list \<Rightarrow> output_state \<Rightarrow>
   py_exception option \<times> (string \<times> async_result) list \<times> output_state" where
  "sweep clock [] jobs st = (None, jobs, st)"
| "sweep clock (i # rest) jobs st =
     (if i < length jobs then
        (if ready clock (snd (jobs ! i)) then
           (let jobs' = take i jobs @ drop (Suc i) jobs
            in (case process_job (jobs ! i) st of
                  (Some e, st') \<Rightarrow> (Some e, jobs', st')
                | (None, st') \<Rightarrow> sweep clock rest jobs' st'))
         else sweep clock rest jobs st)
      else (Some IndexError, jobs, st))"

text \<open>
  A sweep that raises nothing leaves in the list the jobs that were not ready, in
  their order; this is what makes the \<^verbatim>\<open>while\<close> loop end.
\<close>

lemma sweep_remaining:
  "k \<le> length jobs \<Longrightarrow> sweep clock (rev [0..<k]) jobs st = (None, jobs', st') \<Longrightarrow>
   jobs' = filter (\<lambda>j. \<not> ready clock (snd j)) (take k jobs) @ drop k jobs"
proof (induction k arbitrary: jobs st)
  case 0
  then show ?case by simp
next
  case (Suc k)
  have klt: "k < length jobs" using Suc.prems(1) by simp
  show ?case
  proof (cases "ready clock (snd (jobs ! k))")
    case True
    let ?js = "take k jobs @ drop (Suc k) jobs"
    obtain e st1 where pj: "process_job (jobs ! k) st = (e, st1)" by (cases "process_job (jobs ! k) st")
    from Suc.prems(2) True klt pj have e: "e = None"
      by (cases e) (simp_all add: Let_def)
    with Suc.prems(2) True klt pj have sw: "sweep clock (rev [0..<k]) ?js st1 = (None, jobs', st')"
      by (simp add: Let_def)
    have "k \<le> length ?js" using klt by simp
    from Suc.IH[OF this sw] have "jobs' = filter (\<lambda>j. \<not> ready clock (snd j)) (take k jobs) @ drop (Suc k) jobs"
      using klt by simp
    then show ?thesis using True klt by (simp add: take_Suc_conv_app_nth)
  next
    case False
    with Suc.prems(2) klt have sw: "sweep clock (rev [0..<k]) jobs st = (None, jobs', st')"
      by simp
    have "k \<le> length jobs" using klt by simp
    from Suc.IH[OF this sw] show ?thesis using False klt
      by (simp add: take_Suc_conv_app_nth Cons_nth_drop_Suc)
  qed
qed

lemma measure_filter:
  "length (filter (\<lambda>j. \<not> ready clock (snd j)) jobs)
     + sum_list (map (\<lambda>j. ready_at (snd j) - Suc clock) (filter (\<lambda>j. \<not> ready clock (snd j)) jobs))
     + length jobs
   = length jobs + sum_list (map (\<lambda>j. ready_at (snd j) - clock) jobs)"
  by (induction jobs) (auto simp: ready_def)

text \<open>Lines 216 to 236: sweeps until the list is empty. The clock counts the sweeps.\<close>

function wait_loop ::
  "nat \<Rightarrow> (string \<times> async_result) list \<Rightarrow> output_state \<Rightarrow>
   py_exception option \<times> (string \<times> async_result) list \<times> output_state" where
  "wait_loop clock jobs st =
     (if jobs = [] then (None, jobs, st)
      else (case sweep clock (rev [0..<length jobs]) jobs st of
              (Some e, jobs', st') \<Rightarrow> (Some e, jobs', st')
            | (None, jobs', st') \<Rightarrow> wait_loop (Suc clock) jobs' st'))"
  by pat_completeness auto
termination
proof (relation "measure (\<lambda>(clock, jobs, st). length jobs + sum_list (map (\<lambda>j. ready_at (snd j) - clock) jobs))")
  show "wf (measure (\<lambda>(clock, jobs, st). length jobs + sum_list (map (\<lambda>j. ready_at (snd j) - clock) jobs)))"
    by simp
next
  fix clock :: nat and jobs :: "(string \<times> async_result) list" and st x1 x2 x1a x2a
  assume ne: "jobs \<noteq> []" and sw: "(x1, x2) = sweep clock (rev [0..<length jobs]) jobs st"
    and x2: "(x1a, x2a) = x2" and x1: "x1 = None"
  from sw x2 x1 have "sweep clock (rev [0..<length jobs]) jobs st = (None, x1a, x2a)" by simp
  from sweep_remaining[OF _ this] have r: "x1a = filter (\<lambda>j. \<not> ready clock (snd j)) jobs" by simp
  from ne have "0 < length jobs" by simp
  with measure_filter[of clock jobs] r
  show "((Suc clock, x1a, x2a), clock, jobs, st)
        \<in> measure (\<lambda>(clock, jobs, st). length jobs + sum_list (map (\<lambda>j. ready_at (snd j) - clock) jobs))"
    by simp
qed

declare wait_loop.simps [simp del]

text \<open>Handling a sequence of ready jobs one after the other, up to the first that raises.\<close>

fun process_all ::
  "(string \<times> async_result) list \<Rightarrow> output_state \<Rightarrow> py_exception option \<times> output_state" where
  "process_all [] st = (None, st)"
| "process_all (j # js) st =
     (case process_job j st of
        (Some e, st') \<Rightarrow> (Some e, st')
      | (None, st') \<Rightarrow> process_all js st')"

text \<open>
  The order in which the loop handles the jobs: sweep by sweep, within a sweep from
  the highest index down.
\<close>

function handling_order ::
  "nat \<Rightarrow> (string \<times> async_result) list \<Rightarrow> (string \<times> async_result) list" where
  "handling_order clock jobs =
     (if jobs = [] then []
      else rev (filter (\<lambda>j. ready clock (snd j)) jobs)
           @ handling_order (Suc clock) (filter (\<lambda>j. \<not> ready clock (snd j)) jobs))"
  by pat_completeness auto
termination
proof (relation "measure (\<lambda>(clock, jobs). length jobs + sum_list (map (\<lambda>j. ready_at (snd j) - clock) jobs))")
  show "wf (measure (\<lambda>(clock, jobs). length jobs + sum_list (map (\<lambda>j. ready_at (snd j) - clock) jobs)))"
    by simp
next
  fix clock :: nat and jobs :: "(string \<times> async_result) list"
  assume "jobs \<noteq> []"
  then have "0 < length jobs" by simp
  with measure_filter[of clock jobs]
  show "((Suc clock, filter (\<lambda>j. \<not> ready clock (snd j)) jobs), clock, jobs)
        \<in> measure (\<lambda>(clock, jobs). length jobs + sum_list (map (\<lambda>j. ready_at (snd j) - clock) jobs))"
    by simp
qed

declare handling_order.simps [simp del]

subsection \<open>The whole of \<^verbatim>\<open>_main\<close>\<close>

record main_result =
  exit_exception :: "py_exception option"
  printed :: "string list"
  pool_workers :: "process list"
  submitted :: "extraction_args list"

definition crashed :: "py_exception \<Rightarrow> process list \<Rightarrow> main_result" where
  "crashed e pool = \<lparr>exit_exception = Some e, printed = [], pool_workers = pool, submitted = []\<rparr>"

definition main ::
  "converters \<Rightarrow> scheduler \<Rightarrow> nat \<Rightarrow> process \<Rightarrow> filesystem \<Rightarrow> args \<Rightarrow> main_result" where
  "main cv sched cpu_count self fs a =
     (let outputDir = outputDir_of (output_dir a) in
      case mkdir_parents fs outputDir of
        Inl e \<Rightarrow> crashed e []
      | Inr fs1 \<Rightarrow>
     (case list_imagePaths cv fs1 (dyld_path a) of
        Inl e \<Rightarrow> crashed e []
      | Inr imagePaths \<Rightarrow>
     (let pool = Pool workerInitializer cpu_count self in
      case (if imagePaths = [] then Inr []
            else (case loggingLevel_of (verbosity a) of
                    None \<Rightarrow> Inl UnboundLocalError
                  | Some loggingLevel \<Rightarrow>
                      Inr (extractionArgs (dyld_path a) outputDir loggingLevel imagePaths))) of
        Inl e \<Rightarrow> crashed e pool
      | Inr arglist \<Rightarrow>
     (case wait_loop 0 (submit_jobs cv sched arglist)
             \<lparr>jobOutputs = [], jobsComplete = 0, stdout = [], progressBar = []\<rparr> of
        (Some e, jobs', st) \<Rightarrow>
          \<lparr>exit_exception = Some e, printed = stdout st, pool_workers = pool,
           submitted = arglist\<rparr>
      | (None, jobs', st) \<Rightarrow>
          \<lparr>exit_exception = None,
           printed = stdout st @ [[CHR 0x0A, CHR 0x0A] @ ''----- Summary -----'',
                                  concat (jobOutputs st),
                                  ''-------------------'' @ [CHR 0x0A]],
           pool_workers = pool,
           submitted = arglist\<rparr>))))"

section \<open>The order the specification gives\<close>






definition initial_output :: output_state where
  "initial_output = \<lparr>jobOutputs = [], jobsComplete = 0, stdout = [], progressBar = []\<rparr>"

section \<open>Concrete inputs\<close>

text \<open>
  A cache of eight bytes with two images, converters of which the first adds one to
  every byte and logs a warning, and a converter that raises.
\<close>

definition demo_cache :: bytes where
  "demo_cache = [0xCA, 0xFE, 0xBA, 0xBE, 1, 2, 3, 4]"

definition demo_fs :: filesystem where
  "demo_fs = \<lparr>files = (\<lambda>p. if p = Path ''cache'' then Some demo_cache else None), dirs = {}\<rparr>"

definition unchanged :: "extraction_ctx \<Rightarrow> step_result" where
  "unchanged c = \<lparr>ctx_after = c, logged = [], raised = None\<rparr>"

definition demo_slide :: "extraction_ctx \<Rightarrow> step_result" where
  "demo_slide c =
     \<lparr>ctx_after = c\<lparr>machoCtx := (machoCtx c)\<lparr>file_buf := map (\<lambda>b. b + 1) (file_buf (machoCtx c))\<rparr>\<rparr>,
      logged = [\<lparr>levelno = WARNING, message = ''odd page'', exc_info = None\<rparr>],
      raised = None\<rparr>"

definition demo_fail :: "extraction_ctx \<Rightarrow> step_result" where
  "demo_fail c = \<lparr>ctx_after = c, logged = [], raised = Some (OtherError ''bad stub'')\<rparr>"

definition demo_cv :: converters where
  "demo_cv =
     \<lparr>DyldContext = (\<lambda>b. Inr [\<lparr>address = 0, pathFileOffset = 0\<rparr>, \<lparr>address = 4, pathFileOffset = 1\<rparr>]),
      convertAddr = (\<lambda>b a. Inr a),
      readString = (\<lambda>b off. Inr (if off = 0 then [0x2F, 0x61, 0] else [0x2F, 0x62, 0])),
      decode_utf8 = (\<lambda>b. Inr (if b = [0x2F, 0x61] then ''/usr/lib/a'' else ''/usr/lib/b'')),
      MachOContext = (\<lambda>b off. Inr (\<lambda>n. if n = ''__LINKEDIT'' then Some \<lparr>fileoff = 2, filesize = 3\<rparr> else None)),
      processSlideInfo = demo_slide,
      optimizeLinkedit = unchanged,
      fixStubs = unchanged,
      fixObjC = unchanged,
      optimizeOffsets = unchanged,
      formatter = message\<rparr>"

definition failing_cv :: converters where
  "failing_cv = demo_cv\<lparr>fixStubs := demo_fail\<rparr>"


definition demo_ectx :: extraction_ctx where
  "demo_ectx =
     \<lparr>dyldCtx = \<lparr>dyld_file = demo_cache,
                 images = [\<lparr>address = 0, pathFileOffset = 0\<rparr>, \<lparr>address = 4, pathFileOffset = 1\<rparr>]\<rparr>,
      machoCtx = \<lparr>file_buf = demo_cache,
                  segments = (\<lambda>n. if n = ''__LINKEDIT'' then Some \<lparr>fileoff = 2, filesize = 3\<rparr> else None)\<rparr>\<rparr>"




definition demo_sched :: scheduler where
  "demo_sched = \<lparr>finishes = (\<lambda>k. if k = 0 then 1 else 0), sees = (\<lambda>k. demo_fs)\<rparr>"

definition demo_st :: output_state where
  "demo_st = \<lparr>jobOutputs = [], jobsComplete = 0, stdout = [], progressBar = []\<rparr>"

definition demo_args :: args where
  "demo_args = \<lparr>dyld_path = Path ''cache'', output_dir = None, verbosity = 1\<rparr>"

definition demo_self :: process where
  "demo_self = \<lparr>sigint = default_int_handler\<rparr>"

definition demo_main :: main_result where
  "demo_main = main demo_cv demo_sched 2 demo_self demo_fs demo_args"

section \<open>Properties of the worker\<close>

lemma open_contexts_maps:
  assumes "open_contexts cv fs dyldPath imageIndex = Inr (dyldFile, machoFile, ectx)"
  shows "access dyldFile = ACCESS_READ \<and> access machoFile = ACCESS_COPY
         \<and> backing dyldFile = dyldPath \<and> backing machoFile = dyldPath
         \<and> files fs dyldPath = Some (mem dyldFile) \<and> mem machoFile = mem dyldFile
         \<and> file_buf (machoCtx ectx) = mem machoFile"
  using assms
  by (auto simp: open_contexts_def open_rb_def mmap_mmap_def
           split: sum.splits if_splits option.splits)

lemma mmap_visible_private:
  "access m \<noteq> ACCESS_WRITE \<Longrightarrow> mmap_visible m new_mem fls = fls"
  by (cases "access m") (simp_all add: mmap_visible_def)

lemma extractImage_in_try:
  assumes rel: "relative_imagePath imagePath = Inr rel"
      and oc: "open_contexts cv fs dyldPath imageIndex = Inr (dyldFile, machoFile, ectx)"
      and tb: "try_block cv fs (joinpath outputDir rel) ectx = (r, fs')"
  shows "extractImage cv fs dyldPath outputDir imageIndex imagePath loggingLevel =
           \<lparr>returned = Inr (concat (emit_all (formatter cv) loggingLevel
                          (records r @ (case failure r of None \<Rightarrow> [] | Some e \<Rightarrow> [logger_exception e])) [])),
            fs_after = fs',
            effects = [Mmap dyldPath ACCESS_READ, Mmap dyldPath ACCESS_COPY] @ calls r\<rparr>"
proof -
  from open_contexts_maps[OF oc] have a: "access dyldFile = ACCESS_READ" "access machoFile = ACCESS_COPY"
    by simp_all
  then have v: "\<And>x y fls. mmap_visible machoFile x (mmap_visible dyldFile y fls) = fls"
    by (simp add: mmap_visible_private)
  show ?thesis
    unfolding extractImage_def using a by (simp add: rel oc tb Let_def v)
qed

















lemma demo_rel: "relative_imagePath ''/usr/lib/a'' = Inr ''usr/lib/a''"
  by (simp add: relative_imagePath_def)















lemma emit_all_snoc:
  "emit_all fmt lvl (rs @ [r]) [] = emit fmt lvl r (emit_all fmt lvl rs [])"
  by (simp add: emit_all_def)

lemma try_block_records:
  "records (fst (try_block cv fs out ectx)) = records (run_pipeline cv ectx)"
  by (simp add: try_block_def Let_def split: option.splits prod.splits)

lemma try_block_fs_failed_step:
  "failure (run_pipeline cv ectx) \<noteq> None \<Longrightarrow> snd (try_block cv fs out ectx) = fs"
  by (auto simp: try_block_def Let_def)

lemma extractImage_returned:
  assumes rel: "relative_imagePath imagePath = Inr rel"
      and oc: "open_contexts cv fs dyldPath imageIndex = Inr (dyldFile, machoFile, ectx)"
  shows "returned (extractImage cv fs dyldPath outputDir imageIndex imagePath loggingLevel) =
           Inr (concat (emit_all (formatter cv) loggingLevel
                  (records (run_pipeline cv ectx) @
                     (case failure (fst (try_block cv fs (joinpath outputDir rel) ectx)) of
                        None \<Rightarrow> [] | Some e \<Rightarrow> [logger_exception e])) []))
       \<and> fs_after (extractImage cv fs dyldPath outputDir imageIndex imagePath loggingLevel)
           = snd (try_block cv fs (joinpath outputDir rel) ectx)
       \<and> effects (extractImage cv fs dyldPath outputDir imageIndex imagePath loggingLevel)
           = [Mmap dyldPath ACCESS_READ, Mmap dyldPath ACCESS_COPY]
             @ calls (fst (try_block cv fs (joinpath outputDir rel) ectx))"
proof -
  obtain r fs' where tb: "try_block cv fs (joinpath outputDir rel) ectx = (r, fs')"
    by (cases "try_block cv fs (joinpath outputDir rel) ectx") auto
  have "records r = records (run_pipeline cv ectx)"
    using try_block_records[of cv fs "joinpath outputDir rel" ectx] tb by simp
  with extractImage_in_try[OF rel oc tb, of loggingLevel] tb show ?thesis by simp
qed

text \<open>
  Claim C1, as amended. An exception raised inside the \<^verbatim>\<open>try\<close> block, by a converter or
  while the file is written, does not leave the worker: the worker returns its log
  text and \<^verbatim>\<open>job.get()\<close> in the coordinator gives that text without raising. The
  exception is in the log text when the logger lets a record of level \<^verbatim>\<open>ERROR\<close> through
  and is absent from it otherwise. When it was a converter that raised, the file
  system is as it was.
\<close>

theorem C1_error_stays_in_worker:
  assumes rel: "relative_imagePath imagePath = Inr rel"
      and oc: "open_contexts cv (sees sched k) dyldPath imageIndex = Inr (dyldFile, machoFile, ectx)"
      and fail: "failure (fst (try_block cv (sees sched k) (joinpath outputDir rel) ectx)) = Some e"
  shows "(isEnabledFor loggingLevel ERROR \<longrightarrow>
            returned (extractImage cv (sees sched k) dyldPath outputDir imageIndex imagePath loggingLevel)
              = Inr (concat (emit_all (formatter cv) loggingLevel (records (run_pipeline cv ectx)) [])
                     @ formatter cv (logger_exception e) @ [CHR 0x0A]))
       \<and> (\<not> isEnabledFor loggingLevel ERROR \<longrightarrow>
            returned (extractImage cv (sees sched k) dyldPath outputDir imageIndex imagePath loggingLevel)
              = Inr (concat (emit_all (formatter cv) loggingLevel (records (run_pipeline cv ectx)) [])))
       \<and> (failure (run_pipeline cv ectx) \<noteq> None \<longrightarrow>
            fs_after (extractImage cv (sees sched k) dyldPath outputDir imageIndex imagePath loggingLevel)
              = sees sched k)
       \<and> fst (process_job
                (imagePath, apply_async cv sched k (dyldPath, outputDir, imageIndex, imagePath, loggingLevel))
                st) = None"
proof -
  let ?W = "extractImage cv (sees sched k) dyldPath outputDir imageIndex imagePath loggingLevel"
  note w = extractImage_returned[OF rel oc, of outputDir loggingLevel]
  have lv: "levelno (logger_exception e) = ERROR" by (simp add: logger_exception_def)
  have ret: "returned ?W = Inr (concat (emit (formatter cv) loggingLevel (logger_exception e)
               (emit_all (formatter cv) loggingLevel (records (run_pipeline cv ectx)) [])))"
    using w fail by (simp add: emit_all_snoc)
  have a: "isEnabledFor loggingLevel ERROR \<longrightarrow> returned ?W
              = Inr (concat (emit_all (formatter cv) loggingLevel (records (run_pipeline cv ectx)) [])
                     @ formatter cv (logger_exception e) @ [CHR 0x0A])"
    using ret lv by (simp add: emit_def)
  have b: "\<not> isEnabledFor loggingLevel ERROR \<longrightarrow> returned ?W
              = Inr (concat (emit_all (formatter cv) loggingLevel (records (run_pipeline cv ectx)) []))"
    using ret lv by (simp add: emit_def)
  have c: "failure (run_pipeline cv ectx) \<noteq> None \<longrightarrow> fs_after ?W = sees sched k"
    using w try_block_fs_failed_step[of cv ectx "sees sched k" "joinpath outputDir rel"] by simp
  have d: "fst (process_job
                (imagePath, apply_async cv sched k (dyldPath, outputDir, imageIndex, imagePath, loggingLevel))
                st) = None"
    using ret by (simp add: process_job_def apply_async_def Let_def)
  from a b c d show ?thesis by blast
qed

lemma failing_contexts:
  "open_contexts failing_cv (sees demo_sched 0) (Path ''cache'') 0 =
     Inr (\<lparr>backing = Path ''cache'', access = ACCESS_READ, mem = demo_cache\<rparr>,
          \<lparr>backing = Path ''cache'', access = ACCESS_COPY, mem = demo_cache\<rparr>,
          demo_ectx)"
  by (simp add: open_contexts_def open_rb_def demo_fs_def mmap_mmap_def demo_cache_def demo_cv_def
        py_index_def demo_ectx_def failing_cv_def demo_sched_def)

lemma failing_try:
  "failure (fst (try_block failing_cv (sees demo_sched 0) (joinpath (Path ''binaries'') ''usr/lib/a'')
                   demo_ectx)) = Some (OtherError ''bad stub'')"
  by code_simp

lemma failing_pipeline:
  "failure (run_pipeline failing_cv demo_ectx) = Some (OtherError ''bad stub'')"
  by code_simp

lemma failing_log:
  "concat (emit_all (formatter failing_cv) 30 (records (run_pipeline failing_cv demo_ectx)) [])
     = ''odd page'' @ [CHR 0x0A]"
  by code_simp

lemma failing_format:
  "formatter failing_cv (logger_exception (OtherError ''bad stub'')) = ''bad stub''"
  by code_simp

lemma enabled_30: "isEnabledFor 30 ERROR"
  by code_simp

theorem C1_error_stays_in_worker_witness:
  "returned (extractImage failing_cv (sees demo_sched 0) (Path ''cache'') (Path ''binaries'') 0
               ''/usr/lib/a'' 30)
     = Inr (''odd page'' @ [CHR 0x0A] @ ''bad stub'' @ [CHR 0x0A])
   \<and> fs_after (extractImage failing_cv (sees demo_sched 0) (Path ''cache'') (Path ''binaries'') 0
               ''/usr/lib/a'' 30) = sees demo_sched 0
   \<and> fst (process_job
            (''/usr/lib/a'',
             apply_async failing_cv demo_sched 0
               (Path ''cache'', Path ''binaries'', 0, ''/usr/lib/a'', 30))
            demo_st) = None"
  using C1_error_stays_in_worker[OF demo_rel failing_contexts failing_try, of 30 demo_st]
  by (simp add: enabled_30 failing_log failing_format failing_pipeline)

text \<open>
  Claim C1 as it is written fails at verbosity 0: the level is then 100, above
  \<^verbatim>\<open>ERROR\<close>, and the log text of an image whose converter raised is empty.
\<close>

theorem C1_counterexample:
  "loggingLevel_of 0 = Some 100
   \<and> failure (run_pipeline failing_cv demo_ectx) = Some (OtherError ''bad stub'')
   \<and> returned (extractImage failing_cv demo_fs (Path ''cache'') (Path ''binaries'') 0
                 ''/usr/lib/a'' 100) = Inr []"
  by code_simp


























text \<open>
  Claim C10. On the empty image path the test \<^verbatim>\<open>imagePath[0]\<close> raises
  \<^verbatim>\<open>IndexError\<close> before anything else is done, outside the \<^verbatim>\<open>try\<close>: the worker raises
  instead of returning a log text, and \<^verbatim>\<open>job.get()\<close> raises it again in the
  coordinator. On a path that is not empty the strip is defined and removes one slash
  at most.
\<close>

theorem C10_empty_image_path:
  "relative_imagePath [] = Inl IndexError
   \<and> extractImage cv fs dyldPath outputDir imageIndex [] loggingLevel
       = \<lparr>returned = Inl IndexError, fs_after = fs, effects = []\<rparr>
   \<and> fst (process_job ([], apply_async cv sched k (dyldPath, outputDir, imageIndex, [], loggingLevel)) st)
       = Some IndexError
   \<and> relative_imagePath (c # cs) = Inr (if c = CHR ''/'' then cs else c # cs)"
  by (simp add: relative_imagePath_def extractImage_def process_job_def apply_async_def Let_def)

theorem C10_empty_image_path_witness:
  "returned (extractImage demo_cv demo_fs (Path ''cache'') (Path ''binaries'') 0 [] 30) = Inl IndexError
   \<and> relative_imagePath ''//usr'' = Inr ''/usr''"
  using C10_empty_image_path[of demo_cv demo_fs "Path ''cache''" "Path ''binaries''" 0 30
          demo_sched 0 demo_st "CHR ''/''" "''/usr''"]
  by simp

section \<open>Properties of the coordinator\<close>

text \<open>
  The polling loop does what handling the jobs one by one in \<open>handling_order\<close> does:
  the same output, the same exception if a job raised.
\<close>

lemma process_all_append:
  "process_all (xs @ ys) st =
     (case process_all xs st of
        (Some e, st') \<Rightarrow> (Some e, st')
      | (None, st') \<Rightarrow> process_all ys st')"
  by (induction xs arbitrary: st) (auto split: prod.splits option.splits)

lemma sweep_spec:
  "k \<le> length jobs \<Longrightarrow> sweep clock (rev [0..<k]) jobs st = (exc, jobs', st') \<Longrightarrow>
   process_all (rev (filter (\<lambda>j. ready clock (snd j)) (take k jobs))) st = (exc, st')"
proof (induction k arbitrary: jobs st)
  case 0
  then show ?case by simp
next
  case (Suc k)
  have klt: "k < length jobs" using Suc.prems(1) by simp
  have tk: "take (Suc k) jobs = take k jobs @ [jobs ! k]"
    using klt by (simp add: take_Suc_conv_app_nth)
  show ?case
  proof (cases "ready clock (snd (jobs ! k))")
    case True
    let ?js = "take k jobs @ drop (Suc k) jobs"
    obtain e st1 where pj: "process_job (jobs ! k) st = (e, st1)"
      by (cases "process_job (jobs ! k) st")
    show ?thesis
    proof (cases e)
      case None
      with Suc.prems(2) True klt pj have sw: "sweep clock (rev [0..<k]) ?js st1 = (exc, jobs', st')"
        by (simp add: Let_def)
      have "k \<le> length ?js" using klt by simp
      from Suc.IH[OF this sw] have "process_all (rev (filter (\<lambda>j. ready clock (snd j)) (take k jobs))) st1
                                     = (exc, st')"
        using klt by simp
      then show ?thesis using True tk pj None by simp
    next
      case (Some x)
      with Suc.prems(2) True klt pj have "exc = Some x" "st' = st1"
        by (simp_all add: Let_def)
      then show ?thesis using True tk pj Some by simp
    qed
  next
    case False
    with Suc.prems(2) klt have sw: "sweep clock (rev [0..<k]) jobs st = (exc, jobs', st')"
      by simp
    have "k \<le> length jobs" using klt by simp
    from Suc.IH[OF this sw] show ?thesis using False tk by simp
  qed
qed

lemma wait_loop_spec:
  "wait_loop clock jobs st = (exc, jobs', st') \<Longrightarrow>
   process_all (handling_order clock jobs) st = (exc, st')"
proof (induction clock jobs st arbitrary: exc jobs' st' rule: wait_loop.induct)
  case (1 clock jobs st)
  show ?case
  proof (cases "jobs = []")
    case True
    with "1.prems" show ?thesis by (simp add: wait_loop.simps handling_order.simps)
  next
    case False
    obtain e js1 st1 where sw: "sweep clock (rev [0..<length jobs]) jobs st = (e, js1, st1)"
      by (cases "sweep clock (rev [0..<length jobs]) jobs st") auto
    from sweep_spec[OF _ sw] have pa:
      "process_all (rev (filter (\<lambda>j. ready clock (snd j)) jobs)) st = (e, st1)" by simp
    have ho: "handling_order clock jobs =
                rev (filter (\<lambda>j. ready clock (snd j)) jobs)
                @ handling_order (Suc clock) (filter (\<lambda>j. \<not> ready clock (snd j)) jobs)"
      using False by (simp add: handling_order.simps)
    show ?thesis
    proof (cases e)
      case (Some x)
      with "1.prems" False sw have "exc = Some x" "st' = st1"
        by (simp_all add: wait_loop.simps)
      then show ?thesis unfolding ho using pa Some by (simp add: process_all_append)
    next
      case None
      with sweep_remaining[OF _ sw[unfolded None]]
      have js1: "js1 = filter (\<lambda>j. \<not> ready clock (snd j)) jobs" by simp
      from "1.prems" False sw None have wl: "wait_loop (Suc clock) js1 st1 = (exc, jobs', st')"
        by (simp add: wait_loop.simps)
      have "process_all (handling_order (Suc clock) js1) st1 = (exc, st')"
        using "1.IH"[OF False sw[symmetric] None refl wl] by simp
      then show ?thesis unfolding ho using pa None js1 by (simp add: process_all_append)
    qed
  qed
qed

lemma wait_loop_empties:
  "wait_loop clock jobs st = (None, jobs', st') \<Longrightarrow> jobs' = []"
proof (induction clock jobs st arbitrary: jobs' st' rule: wait_loop.induct)
  case (1 clock jobs st)
  show ?case
  proof (cases "jobs = []")
    case True
    with "1.prems" show ?thesis by (simp add: wait_loop.simps)
  next
    case False
    obtain e js1 st1 where sw: "sweep clock (rev [0..<length jobs]) jobs st = (e, js1, st1)"
      by (cases "sweep clock (rev [0..<length jobs]) jobs st") auto
    show ?thesis
    proof (cases e)
      case (Some x)
      with "1.prems" False sw show ?thesis by (simp add: wait_loop.simps)
    next
      case None
      from "1.prems" False sw None have wl: "wait_loop (Suc clock) js1 st1 = (None, jobs', st')"
        by (simp add: wait_loop.simps)
      show ?thesis using "1.IH"[OF False sw[symmetric] None refl wl] by simp
    qed
  qed
qed

lemma mset_handling_order: "mset (handling_order clock jobs) = mset jobs"
proof (induction clock jobs rule: handling_order.induct)
  case (1 clock jobs)
  show ?case
  proof (cases "jobs = []")
    case True
    then show ?thesis by (simp add: handling_order.simps)
  next
    case False
    have "mset (handling_order clock jobs) =
            mset (filter (\<lambda>j. ready clock (snd j)) jobs)
            + mset (handling_order (Suc clock) (filter (\<lambda>j. \<not> ready clock (snd j)) jobs))"
      using False by (subst handling_order.simps) simp
    also have "\<dots> = mset (filter (\<lambda>j. ready clock (snd j)) jobs)
                     + mset (filter (\<lambda>j. \<not> ready clock (snd j)) jobs)"
      using "1.IH"[OF False] by simp
    also have "\<dots> = mset jobs" by simp
    finally show ?thesis .
  qed
qed

lemma sorted_map_const: "\<forall>x\<in>set xs. f x = (c::nat) \<Longrightarrow> sorted (map f xs)"
  by (induction xs) auto

lemma sorted_handling_order:
  "\<forall>j\<in>set jobs. clock \<le> ready_at (snd j) \<Longrightarrow>
   sorted (map (\<lambda>j. ready_at (snd j)) (handling_order clock jobs))"
proof (induction clock jobs rule: handling_order.induct)
  case (1 clock jobs)
  show ?case
  proof (cases "jobs = []")
    case True
    then show ?thesis by (simp add: handling_order.simps)
  next
    case False
    let ?now = "filter (\<lambda>j. ready clock (snd j)) jobs"
    let ?later = "filter (\<lambda>j. \<not> ready clock (snd j)) jobs"
    have ho: "handling_order clock jobs = rev ?now @ handling_order (Suc clock) ?later"
      using False by (subst handling_order.simps) simp
    have now: "\<forall>j\<in>set ?now. ready_at (snd j) = clock"
      using "1.prems" by (auto simp: ready_def)
    have later: "\<forall>j\<in>set ?later. Suc clock \<le> ready_at (snd j)"
      by (auto simp: ready_def)
    have s2: "sorted (map (\<lambda>j. ready_at (snd j)) (handling_order (Suc clock) ?later))"
      using "1.IH"[OF False later] .
    have set2: "set (handling_order (Suc clock) ?later) = set ?later"
      using mset_handling_order[of "Suc clock" ?later] by (metis set_mset_mset)
    have s1: "sorted (map (\<lambda>j. ready_at (snd j)) (rev ?now))"
      using now by (intro sorted_map_const[where c = clock]) simp
    have cross: "\<forall>x\<in>set (rev ?now). \<forall>y\<in>set (handling_order (Suc clock) ?later).
                   ready_at (snd x) \<le> ready_at (snd y)"
      unfolding set2 using now later by fastforce
    show ?thesis unfolding ho using s1 s2 cross
      by (simp add: sorted_append)
  qed
qed



lemma main_cases:
  "(pool_workers (main cv sched cpu_count self fs a) = []
      \<and> submitted (main cv sched cpu_count self fs a) = []
      \<and> exit_exception (main cv sched cpu_count self fs a) \<noteq> None)
   \<or> pool_workers (main cv sched cpu_count self fs a) = Pool workerInitializer cpu_count self"
  by (auto simp: main_def crashed_def Let_def split: sum.splits option.splits prod.splits if_splits)

text \<open>
  Claim C7. The initializer sets the handler of SIGINT to \<^verbatim>\<open>SIG_IGN\<close>. The pool of
  \<^verbatim>\<open>_main\<close>, whenever there is one, is \<^verbatim>\<open>Pool(initializer=_workerInitializer)\<close>: every
  worker in it ignores SIGINT, while the coordinator, whose handler is untouched,
  gets \<^verbatim>\<open>KeyboardInterrupt\<close>.
\<close>

theorem C7_workers_ignore_sigint:
  "sigint (workerInitializer p) = SIG_IGN
   \<and> (\<forall>w \<in> set (pool_workers (main cv sched cpu_count self fs a)).
         sigint w = SIG_IGN \<and> deliver_sigint w = Ignored)
   \<and> (pool_workers (main cv sched cpu_count self fs a) = []
       \<or> pool_workers (main cv sched cpu_count self fs a) = Pool workerInitializer cpu_count self)
   \<and> (submitted (main cv sched cpu_count self fs a) \<noteq> [] \<longrightarrow>
         pool_workers (main cv sched cpu_count self fs a) = Pool workerInitializer cpu_count self)
   \<and> length (Pool workerInitializer cpu_count self) = cpu_count
   \<and> (sigint self = default_int_handler \<longrightarrow> deliver_sigint self = KeyboardInterrupt)"
proof -
  let ?M = "main cv sched cpu_count self fs a"
  have ign: "\<forall>w \<in> set (Pool workerInitializer cpu_count self).
               sigint w = SIG_IGN \<and> deliver_sigint w = Ignored"
    by (auto simp: Pool_def workerInitializer_def deliver_sigint_def)
  have a: "sigint (workerInitializer p) = SIG_IGN" by (simp add: workerInitializer_def)
  have b: "\<forall>w \<in> set (pool_workers ?M). sigint w = SIG_IGN \<and> deliver_sigint w = Ignored"
    using main_cases[of cv sched cpu_count self fs a] ign by auto
  have c: "pool_workers ?M = [] \<or> pool_workers ?M = Pool workerInitializer cpu_count self"
    using main_cases[of cv sched cpu_count self fs a] by blast
  have d: "submitted ?M \<noteq> [] \<longrightarrow> pool_workers ?M = Pool workerInitializer cpu_count self"
    using main_cases[of cv sched cpu_count self fs a] by blast
  have e: "length (Pool workerInitializer cpu_count self) = cpu_count" by (simp add: Pool_def)
  have f: "sigint self = default_int_handler \<longrightarrow> deliver_sigint self = KeyboardInterrupt"
    by (simp add: deliver_sigint_def)
  from a b c d e f show ?thesis by blast
qed

lemma demo_submitted_ne: "submitted (main demo_cv demo_sched 2 demo_self demo_fs demo_args) \<noteq> []"
  by code_simp

lemma demo_self_handler: "sigint demo_self = default_int_handler"
  by (simp add: demo_self_def)

theorem C7_workers_ignore_sigint_witness:
  "pool_workers (main demo_cv demo_sched 2 demo_self demo_fs demo_args)
     = [\<lparr>sigint = SIG_IGN\<rparr>, \<lparr>sigint = SIG_IGN\<rparr>]
   \<and> deliver_sigint demo_self = KeyboardInterrupt"
proof -
  note t = C7_workers_ignore_sigint[of demo_self demo_cv demo_sched 2 demo_self demo_fs demo_args]
  from t demo_submitted_ne
  have "pool_workers (main demo_cv demo_sched 2 demo_self demo_fs demo_args)
          = Pool workerInitializer 2 demo_self" by blast
  moreover have "Pool workerInitializer 2 demo_self = [\<lparr>sigint = SIG_IGN\<rparr>, \<lparr>sigint = SIG_IGN\<rparr>]"
    by code_simp
  moreover from t demo_self_handler have "deliver_sigint demo_self = KeyboardInterrupt" by blast
  ultimately show ?thesis by simp
qed

lemma read_imagePaths_spec:
  "read_imagePaths cv m imgs acc = Inr ps \<Longrightarrow>
   \<exists>new. ps = acc @ new \<and> length new = length imgs
       \<and> (\<forall>i<length imgs. \<exists>raw. readString cv m (pathFileOffset (imgs ! i)) = Inr raw
                                 \<and> decode_utf8 cv (butlast raw) = Inr (new ! i))"
proof (induction imgs arbitrary: acc)
  case Nil
  then show ?case by simp
next
  case (Cons img rest)
  from Cons.prems obtain raw p where
        raw: "readString cv m (pathFileOffset img) = Inr raw"
    and p: "decode_utf8 cv (butlast raw) = Inr p"
    and r: "read_imagePaths cv m rest (acc @ [p]) = Inr ps"
    by (auto split: sum.splits)
  from Cons.IH[OF r] obtain new where
        ps: "ps = (acc @ [p]) @ new" and len: "length new = length rest"
    and each: "\<forall>i<length rest. \<exists>raw. readString cv m (pathFileOffset (rest ! i)) = Inr raw
                                 \<and> decode_utf8 cv (butlast raw) = Inr (new ! i)"
    by blast
  have "\<forall>i<length (img # rest). \<exists>raw. readString cv m (pathFileOffset ((img # rest) ! i)) = Inr raw
                                 \<and> decode_utf8 cv (butlast raw) = Inr ((p # new) ! i)"
  proof (intro allI impI)
    fix i assume "i < length (img # rest)"
    then show "\<exists>raw. readString cv m (pathFileOffset ((img # rest) ! i)) = Inr raw
                     \<and> decode_utf8 cv (butlast raw) = Inr ((p # new) ! i)"
      using raw p each by (cases i) auto
  qed
  moreover have "ps = acc @ (p # new)" using ps by simp
  moreover have "length (p # new) = length (img # rest)" using len by simp
  ultimately show ?case by blast
qed

lemma list_imagePaths_spec:
  assumes "list_imagePaths cv fs p = Inr imagePaths"
  shows "\<exists>content imgs. open_rb fs p = Inr content \<and> DyldContext cv content = Inr imgs
          \<and> length imagePaths = length imgs
          \<and> (\<forall>i<length imgs. \<exists>raw. readString cv content (pathFileOffset (imgs ! i)) = Inr raw
                                    \<and> decode_utf8 cv (butlast raw) = Inr (imagePaths ! i))"
proof -
  from assms obtain content imgs where
        o: "open_rb fs p = Inr content" and d: "DyldContext cv content = Inr imgs"
    and r: "read_imagePaths cv content imgs [] = Inr imagePaths"
    by (auto simp: list_imagePaths_def mmap_mmap_def split: sum.splits if_splits)
  from read_imagePaths_spec[OF r] o d show ?thesis by auto
qed

lemma extractionArgs_eq:
  "extractionArgs dyldPath outputDir lvl imagePaths =
     map (\<lambda>i. (dyldPath, outputDir, int i, imagePaths ! i, lvl)) [0..<length imagePaths]"
proof (rule nth_equalityI)
  show "length (extractionArgs dyldPath outputDir lvl imagePaths)
          = length (map (\<lambda>i. (dyldPath, outputDir, int i, imagePaths ! i, lvl)) [0..<length imagePaths])"
    by (simp add: extractionArgs_def)
next
  fix i assume "i < length (extractionArgs dyldPath outputDir lvl imagePaths)"
  then have "i < length imagePaths" by (simp add: extractionArgs_def)
  then show "extractionArgs dyldPath outputDir lvl imagePaths ! i
               = map (\<lambda>i. (dyldPath, outputDir, int i, imagePaths ! i, lvl)) [0..<length imagePaths] ! i"
    by (simp add: extractionArgs_def nth_enumerate_eq)
qed

lemma submit_jobs_ready:
  "map (\<lambda>j. ready_at (snd j)) (submit_jobs cv sched arglist)
     = map (finishes sched) [0..<length arglist]"
proof (rule nth_equalityI)
  show "length (map (\<lambda>j. ready_at (snd j)) (submit_jobs cv sched arglist))
          = length (map (finishes sched) [0..<length arglist])"
    by (simp add: submit_jobs_def)
next
  fix i assume "i < length (map (\<lambda>j. ready_at (snd j)) (submit_jobs cv sched arglist))"
  then have i: "i < length arglist" by (simp add: submit_jobs_def)
  obtain d od ix ip lv where a: "arglist ! i = (d, od, ix, ip, lv)"
    by (cases "arglist ! i") auto
  from i a show "map (\<lambda>j. ready_at (snd j)) (submit_jobs cv sched arglist) ! i
                   = map (finishes sched) [0..<length arglist] ! i"
    by (simp add: submit_jobs_def nth_enumerate_eq apply_async_def)
qed

lemma main_submitted_spec:
  assumes "submitted (main cv sched cpu_count self fs a) \<noteq> []"
  shows "\<exists>fs1 imagePaths lvl.
           mkdir_parents fs (outputDir_of (output_dir a)) = Inr fs1
         \<and> list_imagePaths cv fs1 (dyld_path a) = Inr imagePaths
         \<and> loggingLevel_of (verbosity a) = Some lvl
         \<and> submitted (main cv sched cpu_count self fs a)
             = extractionArgs (dyld_path a) (outputDir_of (output_dir a)) lvl imagePaths"
  using assms
  by (auto simp: main_def crashed_def Let_def split: sum.splits option.splits prod.splits if_splits)

lemma main_wait_loop:
  "submitted (main cv sched cpu_count self fs a) \<noteq> [] \<or> exit_exception (main cv sched cpu_count self fs a) = None
   \<Longrightarrow> \<exists>jobs' st.
         wait_loop 0 (submit_jobs cv sched (submitted (main cv sched cpu_count self fs a))) initial_output
           = (exit_exception (main cv sched cpu_count self fs a), jobs', st)
       \<and> printed (main cv sched cpu_count self fs a)
           = stdout st @ (case exit_exception (main cv sched cpu_count self fs a) of
                            Some e \<Rightarrow> []
                          | None \<Rightarrow> [[CHR 0x0A, CHR 0x0A] @ ''----- Summary -----'',
                                     concat (jobOutputs st),
                                     ''-------------------'' @ [CHR 0x0A]])"
  by (auto simp: main_def crashed_def Let_def initial_output_def
           split: sum.splits option.splits prod.splits if_splits)

lemma submit_jobs_paths:
  "map fst (submit_jobs cv sched (extractionArgs dyldPath outputDir lvl imagePaths)) = imagePaths"
proof (rule nth_equalityI)
  show "length (map fst (submit_jobs cv sched (extractionArgs dyldPath outputDir lvl imagePaths)))
          = length imagePaths"
    by (simp add: submit_jobs_def extractionArgs_def)
next
  fix i assume "i < length (map fst (submit_jobs cv sched (extractionArgs dyldPath outputDir lvl imagePaths)))"
  then have i: "i < length imagePaths" by (simp add: submit_jobs_def extractionArgs_def)
  then show "map fst (submit_jobs cv sched (extractionArgs dyldPath outputDir lvl imagePaths)) ! i
               = imagePaths ! i"
    by (simp add: submit_jobs_def extractionArgs_def nth_enumerate_eq)
qed

text \<open>
  Claim C8. When the coordinator submits a job at all, it has read every image path
  from a read-only mapping of the cache first; the jobs are one for each image, in the
  order of the image directory, the job of image \<open>i\<close> carrying the index \<open>i\<close> and the
  path of image \<open>i\<close>. The loop handles each job once, a job that is ready in an
  earlier sweep before one that is ready in a later sweep, whatever their indices.
\<close>

theorem C8_one_job_per_image:
  assumes ne: "submitted (main cv sched cpu_count self fs a) \<noteq> []"
  shows "\<exists>fs1 content imgs imagePaths lvl jobs' st.
           mkdir_parents fs (outputDir_of (output_dir a)) = Inr fs1
         \<and> list_imagePaths cv fs1 (dyld_path a) = Inr imagePaths
         \<and> open_rb fs1 (dyld_path a) = Inr content \<and> DyldContext cv content = Inr imgs
         \<and> length imagePaths = length imgs
         \<and> (\<forall>i<length imgs. \<exists>raw. readString cv content (pathFileOffset (imgs ! i)) = Inr raw
                                   \<and> decode_utf8 cv (butlast raw) = Inr (imagePaths ! i))
         \<and> loggingLevel_of (verbosity a) = Some lvl
         \<and> submitted (main cv sched cpu_count self fs a)
             = map (\<lambda>i. (dyld_path a, outputDir_of (output_dir a), int i, imagePaths ! i, lvl))
                   [0..<length imgs]
         \<and> map fst (submit_jobs cv sched (submitted (main cv sched cpu_count self fs a))) = imagePaths
         \<and> map (\<lambda>j. ready_at (snd j)) (submit_jobs cv sched (submitted (main cv sched cpu_count self fs a)))
             = map (finishes sched) [0..<length imgs]
         \<and> wait_loop 0 (submit_jobs cv sched (submitted (main cv sched cpu_count self fs a)))
              initial_output = (exit_exception (main cv sched cpu_count self fs a), jobs', st)
         \<and> process_all
              (handling_order 0 (submit_jobs cv sched (submitted (main cv sched cpu_count self fs a))))
              initial_output = (exit_exception (main cv sched cpu_count self fs a), st)
         \<and> mset (handling_order 0 (submit_jobs cv sched (submitted (main cv sched cpu_count self fs a))))
             = mset (submit_jobs cv sched (submitted (main cv sched cpu_count self fs a)))
         \<and> sorted (map (\<lambda>j. ready_at (snd j))
              (handling_order 0 (submit_jobs cv sched (submitted (main cv sched cpu_count self fs a)))))"
proof -
  let ?M = "main cv sched cpu_count self fs a"
  let ?jobs = "submit_jobs cv sched (submitted ?M)"
  from main_submitted_spec[OF ne] obtain fs1 imagePaths lvl where
        mk: "mkdir_parents fs (outputDir_of (output_dir a)) = Inr fs1"
    and lp: "list_imagePaths cv fs1 (dyld_path a) = Inr imagePaths"
    and lv: "loggingLevel_of (verbosity a) = Some lvl"
    and sb: "submitted ?M = extractionArgs (dyld_path a) (outputDir_of (output_dir a)) lvl imagePaths"
    by blast
  from list_imagePaths_spec[OF lp] obtain content imgs where
        o: "open_rb fs1 (dyld_path a) = Inr content" and d: "DyldContext cv content = Inr imgs"
    and len: "length imagePaths = length imgs"
    and each: "\<forall>i<length imgs. \<exists>raw. readString cv content (pathFileOffset (imgs ! i)) = Inr raw
                                   \<and> decode_utf8 cv (butlast raw) = Inr (imagePaths ! i)"
    by blast
  have sb': "submitted ?M = map (\<lambda>i. (dyld_path a, outputDir_of (output_dir a), int i, imagePaths ! i, lvl))
                   [0..<length imgs]"
    using sb len by (simp add: extractionArgs_eq)
  have paths: "map fst ?jobs = imagePaths"
    unfolding sb by (rule submit_jobs_paths)
  have rd: "map (\<lambda>j. ready_at (snd j)) ?jobs = map (finishes sched) [0..<length imgs]"
    using submit_jobs_ready[of cv sched "submitted ?M"] sb' by simp
  from main_wait_loop[of cv sched cpu_count self fs a] ne obtain jobs' st where
    wl: "wait_loop 0 ?jobs initial_output = (exit_exception ?M, jobs', st)" by blast
  note pa = wait_loop_spec[OF wl]
  note ms = mset_handling_order[of 0 ?jobs]
  have so: "sorted (map (\<lambda>j. ready_at (snd j)) (handling_order 0 ?jobs))"
    by (rule sorted_handling_order) simp
  from mk lp o d len each lv sb' paths rd wl pa ms so show ?thesis by blast
qed

lemma demo_main_submitted:
  "submitted demo_main =
     [(Path ''cache'', Path ''binaries'', 0, ''/usr/lib/a'', 30),
      (Path ''cache'', Path ''binaries'', 1, ''/usr/lib/b'', 30)]"
  by code_simp

lemma demo_main_order:
  "map fst (handling_order 0 (submit_jobs demo_cv demo_sched (submitted demo_main)))
     = [''/usr/lib/b'', ''/usr/lib/a'']"
  by code_simp

theorem C8_one_job_per_image_witness:
  "submitted demo_main =
     [(Path ''cache'', Path ''binaries'', 0, ''/usr/lib/a'', 30),
      (Path ''cache'', Path ''binaries'', 1, ''/usr/lib/b'', 30)]
   \<and> map fst (submit_jobs demo_cv demo_sched (submitted demo_main)) = [''/usr/lib/a'', ''/usr/lib/b'']
   \<and> map fst (handling_order 0 (submit_jobs demo_cv demo_sched (submitted demo_main)))
       = [''/usr/lib/b'', ''/usr/lib/a'']
   \<and> mset (handling_order 0 (submit_jobs demo_cv demo_sched (submitted demo_main)))
       = mset (submit_jobs demo_cv demo_sched (submitted demo_main))"
proof -
  have ne: "submitted (main demo_cv demo_sched 2 demo_self demo_fs demo_args) \<noteq> []"
    by (rule demo_submitted_ne)
  from C8_one_job_per_image[OF ne]
  have "mset (handling_order 0 (submit_jobs demo_cv demo_sched (submitted demo_main)))
          = mset (submit_jobs demo_cv demo_sched (submitted demo_main))"
    unfolding demo_main_def by blast
  moreover have "map fst (submit_jobs demo_cv demo_sched (submitted demo_main))
                   = [''/usr/lib/a'', ''/usr/lib/b'']"
    by code_simp
  ultimately show ?thesis using demo_main_submitted demo_main_order by simp
qed







end
